theory Spec2Isabelle
  imports Main "HOL-Library.Word"
begin

unbundle bit_operations_syntax

section \<open>Machine values and outcomes\<close>

text \<open>
  A byte of the key or of a block is an \<open>unsigned char\<close>: an 8-bit word. Lengths, shifts,
  positions and block indices are \<open>unsigned int\<close> in the source; they are natural numbers
  here, and every place where the source narrows or wraps a value is written out with
  \<open>to_uchar\<close> (conversion to \<open>unsigned char\<close>) or \<open>to_uint\<close> (32-bit wrap-around).
\<close>

type_synonym byte = "8 word"

definition to_uchar :: "nat \<Rightarrow> nat" where
  "to_uchar n = n mod 256"

definition to_uint :: "nat \<Rightarrow> nat" where
  "to_uint n = n mod 4294967296"

text \<open>
  What a call can do: return a value, stop the process on a fault, or never return.
\<close>

datatype fault = AssertionFailed | DivisionByZero | UseAfterFree | InvalidThreadHandle

datatype 'a outcome = Returns 'a | Faults fault | Diverges

fun obind :: "'a outcome \<Rightarrow> ('a \<Rightarrow> 'b outcome) \<Rightarrow> 'b outcome" where
  "obind (Returns x) f = f x"
| "obind (Faults e) f = Faults e"
| "obind Diverges f = Diverges"

text \<open>A loop defined as a partial function yields \<open>None\<close> when it is never left.\<close>

fun of_loop :: "'a outcome option \<Rightarrow> 'a outcome" where
  "of_loop None = Diverges"
| "of_loop (Some r) = r"

section \<open>Key rotation\<close>

subsection \<open>\<open>encrypt_rotate_key_bits\<close>\<close>

text \<open>
  The inner \<open>for\<close> loop of \<open>encrypt_rotate_key_bits\<close>, from position \<open>index\<close> on:
  shift the byte left by one, leave the loop at the last byte, otherwise take the top bit
  of the following (not yet shifted) byte into the low bit.
\<close>

function shift_scan :: "byte list \<Rightarrow> nat \<Rightarrow> nat \<Rightarrow> byte list" where
  "shift_scan key keylength index =
     (if index < keylength then
        (let key1 = key[index := push_bit 1 (key ! index)] in
         if index + 1 \<ge> keylength then key1
         else shift_scan
                (key1[index := (key1 ! index) OR
                                 (if (key1 ! (index + 1)) AND 0x80 \<noteq> 0 then 0x1 else 0x0)])
                keylength (index + 1))
      else key)"
  by pat_completeness auto
termination
  by (relation "measure (\<lambda>(key, keylength, index). keylength - index)") auto

declare shift_scan.simps [simp del]

text \<open>One iteration of the outer loop: remember the top bit of byte 0, scan, put it into
  the low bit of the last byte.\<close>

definition rotate_bits_pass :: "byte list \<Rightarrow> nat \<Rightarrow> byte list" where
  "rotate_bits_pass key keylength =
     (let carry = ((key ! 0) AND 0x80 \<noteq> 0);
          key1 = shift_scan key keylength 0
      in key1[keylength - 1 := (key1 ! (keylength - 1)) OR (if carry then 0x1 else 0x0)])"

primrec encrypt_rotate_key_bits :: "byte list \<Rightarrow> nat \<Rightarrow> nat \<Rightarrow> byte list" where
  "encrypt_rotate_key_bits key keylength 0 = key"
| "encrypt_rotate_key_bits key keylength (Suc shift) =
     encrypt_rotate_key_bits (rotate_bits_pass key keylength) keylength shift"

subsection \<open>\<open>encrypt_rotate_key_bytes\<close>\<close>

function compute_gcd :: "nat \<Rightarrow> nat \<Rightarrow> nat" where
  "compute_gcd a b = (if b = 0 then a else compute_gcd b (a mod b))"
  by pat_completeness auto
termination
  by (relation "measure (\<lambda>(a, b). b)") auto

declare compute_gcd.simps [simp del]

text \<open>
  The two assignments to \<open>next\<close> at the head of the \<open>while (1)\<close> loop. \<open>next\<close> is an
  \<open>unsigned char\<close> in the source, so both assignments narrow the value.
\<close>

definition next_pos :: "nat \<Rightarrow> nat \<Rightarrow> nat \<Rightarrow> nat" where
  "next_pos keylength shift pos =
     (let next = to_uchar (pos + shift)
      in if next \<ge> keylength then to_uchar (next - keylength) else next)"

text \<open>
  The \<open>while (1)\<close> loop that walks one cycle. The loop is left only when \<open>next\<close> equals
  \<open>index\<close>; the result is the key and the last position. \<open>None\<close> is a loop that is never
  left.
\<close>

partial_function (option) cycle_walk ::
  "byte list \<Rightarrow> nat \<Rightarrow> nat \<Rightarrow> nat \<Rightarrow> nat \<Rightarrow> (byte list \<times> nat) option" where
  "cycle_walk key keylength shift index pos =
     (if next_pos keylength shift pos = index then Some (key, pos)
      else cycle_walk (key[pos := key ! next_pos keylength shift pos]) keylength shift index
             (next_pos keylength shift pos))"

declare cycle_walk.simps [code]

text \<open>The \<open>for\<close> loop over the cycles, from cycle \<open>index\<close> on; \<open>cycles\<close> is the
  source's local \<open>gcd\<close>.\<close>

function rotate_cycles ::
  "byte list \<Rightarrow> nat \<Rightarrow> nat \<Rightarrow> nat \<Rightarrow> nat \<Rightarrow> byte list option" where
  "rotate_cycles key keylength shift cycles index =
     (if index < cycles then
        (case cycle_walk key keylength shift index index of
           None \<Rightarrow> None
         | Some (key1, pos) \<Rightarrow>
             rotate_cycles (key1[pos := key ! index]) keylength shift cycles (index + 1))
      else Some key)"
  by pat_completeness auto
termination
  by (relation "measure (\<lambda>(key, keylength, shift, cycles, index). cycles - index)") auto

declare rotate_cycles.simps [simp del]

text \<open>
  The parameter \<open>shift\<close> is declared \<open>unsigned char\<close>: the caller's value is narrowed on
  entry, before the assertion.
\<close>

definition encrypt_rotate_key_bytes :: "byte list \<Rightarrow> nat \<Rightarrow> nat \<Rightarrow> byte list outcome" where
  "encrypt_rotate_key_bytes key keylength shift_arg =
     (let shift = to_uchar shift_arg in
      if \<not> shift < keylength then Faults AssertionFailed
      else case rotate_cycles key keylength shift (compute_gcd shift keylength) 0 of
             None \<Rightarrow> Diverges
           | Some key1 \<Rightarrow> Returns key1)"

subsection \<open>\<open>encrypt_rotate_key\<close>\<close>

definition encrypt_rotate_key :: "byte list \<Rightarrow> nat \<Rightarrow> nat \<Rightarrow> byte list outcome" where
  "encrypt_rotate_key key keylength shift_arg =
     (if to_uint (keylength * 8) = 0 then Faults DivisionByZero
      else
        (let shift = shift_arg mod to_uint (keylength * 8) in
         obind (if shift div 8 \<noteq> 0 then encrypt_rotate_key_bytes key keylength (shift div 8)
                else Returns key)
           (\<lambda>key1. Returns (if shift mod 8 \<noteq> 0
                              then encrypt_rotate_key_bits key1 keylength (shift mod 8)
                              else key1))))"

section \<open>The block cipher\<close>

text \<open>The \<open>for\<close> loop of \<open>encrypt_block\<close>, from position \<open>index\<close> on.\<close>

function xor_scan :: "byte list \<Rightarrow> nat \<Rightarrow> byte list \<Rightarrow> nat \<Rightarrow> byte list" where
  "xor_scan block blocklength key index =
     (if index < blocklength
      then xor_scan (block[index := (block ! index) XOR (key ! index)]) blocklength key (index + 1)
      else block)"
  by pat_completeness auto
termination
  by (relation "measure (\<lambda>(block, blocklength, key, index). blocklength - index)") auto

declare xor_scan.simps [simp del]

definition encrypt_block :: "byte list \<Rightarrow> nat \<Rightarrow> byte list \<Rightarrow> nat \<Rightarrow> byte list outcome" where
  "encrypt_block block blocklength key keylength =
     (if blocklength \<le> keylength then Returns (xor_scan block blocklength key 0)
      else Faults AssertionFailed)"

section \<open>The byte streams\<close>

text \<open>
  Standard input is a finite sequence of bytes. \<open>fread (buffer, 1, count, stdin)\<close> stores the
  next \<open>count\<close> bytes, or all that are left when fewer are, at the start of the buffer; it
  returns how many it stored, the buffer and the rest of the stream.
\<close>

definition fread :: "byte list \<Rightarrow> nat \<Rightarrow> byte list \<Rightarrow> nat \<times> byte list \<times> byte list" where
  "fread buffer count stream =
     (length (take count stream),
      take count stream @ drop (length (take count stream)) buffer,
      drop count stream)"

text \<open>\<open>fwrite (buffer, 1, count, stdout)\<close> appends the first \<open>count\<close> bytes of the buffer.\<close>

definition fwrite :: "byte list \<Rightarrow> nat \<Rightarrow> byte list \<Rightarrow> byte list" where
  "fwrite buffer count stream = stream @ take count buffer"

text \<open>\<open>malloc\<close> of a byte buffer; its indeterminate content is written as zero bytes.\<close>

definition malloc_bytes :: "nat \<Rightarrow> byte list" where
  "malloc_bytes n = replicate n 0"


section \<open>The key as a bit string\<close>

text \<open>
  The bits of a byte, most significant first, and the bits of a key, byte 0 first: the key
  read as one big-endian number of \<open>8 * length key\<close> bits.
\<close>

definition byte_bits :: "byte \<Rightarrow> bool list" where
  "byte_bits b = map (bit b) (rev [0..<8])"

definition key_bits :: "byte list \<Rightarrow> bool list" where
  "key_bits key = concat (map byte_bits key)"

text \<open>The top bit of a byte, as the value that goes into the low bit of another.\<close>

definition top_bit :: "byte \<Rightarrow> byte" where
  "top_bit b = (if b AND 0x80 \<noteq> 0 then 0x1 else 0x0)"


section \<open>The environment and the process state\<close>

text \<open>
  What the run gets from outside: the files that \<open>fopen\<close> can open for reading, with
  their bytes; whether \<open>malloc\<close> returns memory; and what \<open>pthread_create\<close> returns.
\<close>

record environment =
  files :: "string \<Rightarrow> byte list option"
  malloc_ok :: bool
  pthread_create_result :: int

text \<open>
  A line of the error stream, as the \<open>verify\<close> macros print it: the function, the line,
  and for \<open>verify\<close> the value of the expression.
\<close>

datatype diagnostic = Diagnostic string nat "int option"

text \<open>
  A block is an \<open>encrypt_block_info_t\<close> at an address. \<open>b_block\<close> is the buffer of
  \<open>keylength\<close> bytes, \<open>b_length\<close> the number of valid bytes in it.
\<close>

type_synonym addr = nat

record encrypt_block_info =
  b_index :: nat
  b_block :: "byte list"
  b_length :: nat
  b_next :: "addr option"

text \<open>
  \<open>Running\<close>: control is inside the function. \<open>Leaving\<close>: a \<open>verify\<close> failed and control went
  to the \<open>exit\<close> label. \<open>Crashed\<close>: the process stopped on a fault. \<open>Hung\<close>: a thread is in a
  loop that is never left, or waits for a signal that never comes.
\<close>

datatype status = Running | Leaving | Crashed fault | Hung

text \<open>
  The state of a run in parallel mode: the allocated blocks (a freed or never allocated
  address holds \<open>None\<close>), the next address \<open>malloc\<close> hands out, the two queue heads of the
  \<open>encrypt_context_t\<close>, the locals \<open>index\<close>, \<open>slot\<close>, \<open>quit\<close> and \<open>retval\<close> of
  \<open>encrypt_execute_parallel\<close>, and the three streams.
\<close>

record pstate =
  blocks :: "addr \<Rightarrow> encrypt_block_info option"
  fresh :: addr
  process_queue :: "addr option"
  completion_queue :: "addr option"
  p_index :: nat
  p_slot :: nat
  p_quit :: bool
  p_retval :: int
  stdin :: "byte list"
  stdout :: "byte list"
  stderr :: "diagnostic list"
  p_status :: status

definition set_next :: "addr \<Rightarrow> addr option \<Rightarrow> pstate \<Rightarrow> pstate" where
  "set_next a v s =
     s\<lparr>blocks := (blocks s)(a := map_option (\<lambda>info. info\<lparr>b_next := v\<rparr>) (blocks s a))\<rparr>"

section \<open>Sequential mode\<close>

text \<open>
  The \<open>for (index = 0;; index++)\<close> loop of \<open>encrypt_execute_sequential\<close>: read into the
  one block, stop on an empty read, cipher with the live key, write, rotate the live key by
  one bit. The result is how the loop ended and what was written.
\<close>

function sequential_loop ::
  "byte list \<Rightarrow> nat \<Rightarrow> byte list \<Rightarrow> byte list \<Rightarrow> byte list \<Rightarrow> status \<times> byte list" where
  "sequential_loop key keylength block input output =
     (case fread block keylength input of (len, block1, rest) \<Rightarrow>
        if len = 0 then (Running, output)
        else
          (case encrypt_block block1 len key keylength of
             Returns block2 \<Rightarrow>
               (case encrypt_rotate_key key keylength 1 of
                  Returns key1 \<Rightarrow>
                    sequential_loop key1 keylength block2 rest (fwrite block2 len output)
                | Faults f \<Rightarrow> (Crashed f, fwrite block2 len output)
                | Diverges \<Rightarrow> (Hung, fwrite block2 len output))
           | Faults f \<Rightarrow> (Crashed f, output)
           | Diverges \<Rightarrow> (Hung, output)))"
  by pat_completeness auto
termination
  by (relation "measure (\<lambda>(key, keylength, block, input, output). length input)")
     (auto simp: fread_def)

declare sequential_loop.simps [simp del]

text \<open>
  How a call ends: it returns a value, the process stops on a fault, or the call never
  returns. The observable result of a run is how it ended and what went to the output and to
  the error stream.
\<close>

datatype ending = Returned int | Crash fault | Hang

fun ending_of :: "status \<Rightarrow> int \<Rightarrow> ending" where
  "ending_of Running retval = Returned retval"
| "ending_of Leaving retval = Returned retval"
| "ending_of (Crashed f) retval = Crash f"
| "ending_of Hung retval = Hang"

record result =
  r_end :: ending
  r_stdout :: "byte list"
  r_stderr :: "diagnostic list"

definition encrypt_execute_sequential ::
  "environment \<Rightarrow> byte list \<Rightarrow> nat \<Rightarrow> byte list \<Rightarrow> result" where
  "encrypt_execute_sequential env key keylength input =
     (if \<not> 0 < keylength
      then \<lparr>r_end = Crash AssertionFailed, r_stdout = [], r_stderr = []\<rparr>
      else if \<not> malloc_ok env
      then \<lparr>r_end = Returned (- 1), r_stdout = [],
             r_stderr = [Diagnostic ''encrypt_block_init'' 199 None,
                         Diagnostic ''encrypt_execute_sequential'' 394 (Some (- 1))]\<rparr>
      else
        (case sequential_loop key keylength (malloc_bytes keylength) input [] of
           (st, output) \<Rightarrow>
             \<lparr>r_end = ending_of st 0, r_stdout = output, r_stderr = []\<rparr>))"

section \<open>Parallel mode\<close>

subsection \<open>The coordinator's submission round\<close>

text \<open>
  The walk to the last block of the process queue, from \<open>current\<close>. \<open>None\<close> is a walk that
  never ends (a cyclic queue).
\<close>

partial_function (option) queue_last ::
  "(addr \<Rightarrow> encrypt_block_info option) \<Rightarrow> addr \<Rightarrow> addr outcome option" where
  "queue_last heap current =
     (case heap current of
        None \<Rightarrow> Some (Faults UseAfterFree)
      | Some info \<Rightarrow>
          (case b_next info of
             None \<Rightarrow> Some (Returns current)
           | Some n \<Rightarrow> queue_last heap n))"

declare queue_last.simps [code]

text \<open>Appending the block at \<open>a\<close> to the process queue, under the lock.\<close>

definition submit :: "addr \<Rightarrow> pstate \<Rightarrow> pstate" where
  "submit a s =
     (case process_queue s of
        None \<Rightarrow> s\<lparr>process_queue := Some a\<rparr>
      | Some head \<Rightarrow>
          (case of_loop (queue_last (blocks s) head) of
             Returns current \<Rightarrow> set_next current (Some a) s
           | Faults f \<Rightarrow> s\<lparr>p_status := Crashed f\<rparr>
           | Diverges \<Rightarrow> s\<lparr>p_status := Hung\<rparr>))"

text \<open>
  \<open>encrypt_block_init\<close> followed by the \<open>fread\<close> into the new block: the address of the
  block (if it was allocated), the number of bytes read, and the state.
\<close>

definition encrypt_block_init ::
  "environment \<Rightarrow> nat \<Rightarrow> nat \<Rightarrow> pstate \<Rightarrow> addr option \<times> pstate" where
  "encrypt_block_init env blockindex blocklength s =
     (if \<not> 0 < blocklength then (None, s\<lparr>p_status := Crashed AssertionFailed\<rparr>)
      else if \<not> malloc_ok env
      then (None, s\<lparr>p_retval := - 1, p_status := Leaving,
                     stderr := stderr s @ [Diagnostic ''encrypt_block_init'' 199 None,
                                           Diagnostic ''encrypt_execute_parallel'' 334 (Some (- 1))]\<rparr>)
      else (Some (fresh s),
            s\<lparr>blocks := (blocks s)(fresh s \<mapsto>
                   \<lparr>b_index = blockindex, b_block = malloc_bytes blocklength,
                    b_length = blocklength, b_next = None\<rparr>),
              fresh := fresh s + 1\<rparr>))"

definition encrypt_block_deinit :: "addr \<Rightarrow> pstate \<Rightarrow> pstate" where
  "encrypt_block_deinit a s = s\<lparr>blocks := (blocks s)(a := None)\<rparr>"

text \<open>
  The \<open>for (slot = 0; slot < threadcount; index++, slot++)\<close> loop, from the current \<open>slot\<close>
  on. Only a read of no bytes sets \<open>quit\<close> and leaves the loop; a block of any other length
  is submitted with the length read.
\<close>

function submit_loop :: "environment \<Rightarrow> nat \<Rightarrow> nat \<Rightarrow> pstate \<Rightarrow> pstate" where
  "submit_loop env keylength threadcount s =
     (if p_slot s < threadcount then
        (case encrypt_block_init env (p_index s) keylength s of
           (None, s1) \<Rightarrow> s1
         | (Some a, s1) \<Rightarrow>
             (case fread (malloc_bytes keylength) keylength (stdin s1) of (len, buffer, rest) \<Rightarrow>
                if len = 0
                then encrypt_block_deinit a (s1\<lparr>stdin := rest, p_quit := True\<rparr>)
                else
                  (case submit a
                          (s1\<lparr>stdin := rest,
                              blocks := (blocks s1)(a \<mapsto>
                                \<lparr>b_index = p_index s, b_block = buffer,
                                 b_length = len, b_next = None\<rparr>)\<rparr>) of s2 \<Rightarrow>
                     if p_status s2 \<noteq> Running then s2
                     else submit_loop env keylength threadcount
                            (s2\<lparr>p_index := to_uint (p_index s2 + 1),
                                p_slot := p_slot s2 + 1\<rparr>))))
      else s)"
  by pat_completeness auto
termination
proof (relation "measure (\<lambda>(env, keylength, threadcount, s). threadcount - p_slot s)",
    goal_cases)
  case 1
  show ?case by simp
next
  case (2 env keylength threadcount s ao s1 a len tl buffer rest)
  have init: "p_slot s1 = p_slot s"
    using 2(2,3) by (auto simp: encrypt_block_init_def split: if_splits)
  have sub: "p_slot (submit b t) = p_slot t" for b t
    by (simp add: submit_def set_next_def split: option.splits outcome.splits)
  show ?case using 2(1) by (simp add: init sub)
qed

declare submit_loop.simps [simp del]

subsection \<open>The workers\<close>

text \<open>
  The first half of the body of the loop of \<open>encrypt_thread\<close>: take the head of the process
  queue, rotate a private copy of the key by the block's index, cipher the block. The
  result names the block taken, if there was one.
\<close>

definition worker_take :: "byte list \<Rightarrow> nat \<Rightarrow> pstate \<Rightarrow> addr option \<times> pstate" where
  "worker_take key keylength s =
     (case process_queue s of
        None \<Rightarrow> (None, s)
      | Some a \<Rightarrow>
          (case blocks s a of
             None \<Rightarrow> (None, s\<lparr>p_status := Crashed UseAfterFree\<rparr>)
           | Some info \<Rightarrow>
               (case obind (encrypt_rotate_key key keylength (b_index info))
                       (\<lambda>key1. encrypt_block (b_block info) (b_length info) key1 keylength) of
                  Returns block1 \<Rightarrow>
                    (Some a,
                     s\<lparr>process_queue := b_next info,
                       blocks := (blocks s)(a \<mapsto> info\<lparr>b_block := block1\<rparr>)\<rparr>)
                | Faults f \<Rightarrow> (None, s\<lparr>process_queue := b_next info, p_status := Crashed f\<rparr>)
                | Diverges \<Rightarrow> (None, s\<lparr>process_queue := b_next info, p_status := Hung\<rparr>))))"

text \<open>
  The search of the completion queue for the place of a block with index \<open>idx\<close>: the \<open>for\<close>
  loop of \<open>encrypt_thread\<close> with its two pointers. The result is \<open>(previous, current)\<close> when
  the loop is left.
\<close>

partial_function (option) queue_scan ::
  "(addr \<Rightarrow> encrypt_block_info option) \<Rightarrow> nat \<Rightarrow> addr option \<Rightarrow> addr option \<Rightarrow>
   (addr option \<times> addr option) outcome option" where
  "queue_scan heap idx current previous =
     (case current of
        None \<Rightarrow> Some (Returns (previous, current))
      | Some c \<Rightarrow>
          (case heap c of
             None \<Rightarrow> Some (Faults UseAfterFree)
           | Some info \<Rightarrow>
               if idx < b_index info then Some (Returns (previous, current))
               else queue_scan heap idx (b_next info) current))"

declare queue_scan.simps [code]

text \<open>
  The second half: under the lock, search the completion queue and link the block at \<open>a\<close>
  in. When the queue is not empty the block is always linked behind \<open>previous\<close>.
\<close>

definition worker_complete :: "addr \<Rightarrow> pstate \<Rightarrow> pstate" where
  "worker_complete a s =
     (case blocks s a of
        None \<Rightarrow> s\<lparr>p_status := Crashed UseAfterFree\<rparr>
      | Some info \<Rightarrow>
          (case of_loop (queue_scan (blocks s) (b_index info)
                           (completion_queue s) (completion_queue s)) of
             Returns (previous, current) \<Rightarrow>
               set_next a current
                 (case completion_queue s of
                    None \<Rightarrow> s\<lparr>completion_queue := Some a\<rparr>
                  | Some head \<Rightarrow>
                      (case previous of
                         None \<Rightarrow> s\<lparr>p_status := Crashed UseAfterFree\<rparr>
                       | Some p \<Rightarrow> set_next p (Some a) s))
           | Faults f \<Rightarrow> s\<lparr>p_status := Crashed f\<rparr>
           | Diverges \<Rightarrow> s\<lparr>p_status := Hung\<rparr>))"

text \<open>
  The workers take the \<open>n\<close> submitted blocks from the process queue in queue order. The
  result lists the blocks taken.
\<close>

fun workers_take :: "byte list \<Rightarrow> nat \<Rightarrow> nat \<Rightarrow> pstate \<Rightarrow> addr list \<times> pstate" where
  "workers_take key keylength 0 s = ([], s)"
| "workers_take key keylength (Suc n) s =
     (case worker_take key keylength s of
        (None, s1) \<Rightarrow> ([], s1)
      | (Some a, s1) \<Rightarrow>
          if p_status s1 \<noteq> Running then ([a], s1)
          else (case workers_take key keylength n s1 of (as, s2) \<Rightarrow> (a # as, s2)))"

text \<open>The workers complete the blocks in the order given.\<close>

fun workers_complete :: "addr list \<Rightarrow> pstate \<Rightarrow> pstate" where
  "workers_complete [] s = s"
| "workers_complete (a # as) s =
     (case worker_complete a s of s1 \<Rightarrow>
        if p_status s1 \<noteq> Running then s1 else workers_complete as s1)"

subsection \<open>The coordinator's drain\<close>

text \<open>
  The \<open>while (current != NULL)\<close> loop that writes and frees the blocks of the completion
  queue. A pointer to a block already freed is a fault.
\<close>

partial_function (option) drain_loop :: "addr option \<Rightarrow> pstate \<Rightarrow> pstate option" where
  "drain_loop current s =
     (case current of
        None \<Rightarrow> Some s
      | Some c \<Rightarrow>
          (case blocks s c of
             None \<Rightarrow> Some (s\<lparr>p_status := Crashed UseAfterFree\<rparr>)
           | Some info \<Rightarrow>
               drain_loop (b_next info)
                 (encrypt_block_deinit c
                    (s\<lparr>stdout := fwrite (b_block info) (b_length info) (stdout s)\<rparr>))))"

declare drain_loop.simps [code]

definition drain :: "pstate \<Rightarrow> pstate" where
  "drain s =
     (case drain_loop (completion_queue s) s of
        None \<Rightarrow> s\<lparr>p_status := Hung\<rparr>
      | Some s1 \<Rightarrow> if p_status s1 \<noteq> Running then s1 else s1\<lparr>completion_queue := None\<rparr>)"

subsection \<open>\<open>encrypt_execute_parallel\<close>\<close>

text \<open>
  The threads of the pool run concurrently with the coordinator; what the coordinator sees
  of them is the order in which the blocks of a round are linked into the completion queue
  (each insertion is one critical section). A \<open>schedule\<close> gives that order for every round:
  from the number of the round and the blocks of the round in queue order to the same
  blocks in completion order. With at most \<open>threadcount\<close> blocks in a round and
  \<open>threadcount\<close> workers, every order can occur when \<open>threadcount > 1\<close>; a single worker
  completes the blocks in queue order.
\<close>

type_synonym schedule = "nat \<Rightarrow> addr list \<Rightarrow> addr list"

definition in_order :: schedule where
  "in_order round as = as"

text \<open>
  One iteration of \<open>while (!quit)\<close>: submit up to \<open>threadcount\<close> blocks, let the workers
  process them, count \<open>slot\<close> down on the completion signal, drain.
\<close>

definition parallel_round ::
  "environment \<Rightarrow> byte list \<Rightarrow> nat \<Rightarrow> nat \<Rightarrow> schedule \<Rightarrow> nat \<Rightarrow> pstate \<Rightarrow> pstate" where
  "parallel_round env key keylength threadcount sched round s =
     (case submit_loop env keylength threadcount (s\<lparr>p_slot := 0\<rparr>) of s1 \<Rightarrow>
        if p_status s1 \<noteq> Running then s1
        else
          (case workers_take key keylength (p_slot s1) s1 of (as, s2) \<Rightarrow>
             if p_status s2 \<noteq> Running then s2
             else
               (case workers_complete (sched round as) s2 of s3 \<Rightarrow>
                  if p_status s3 \<noteq> Running then s3
                  else drain (s3\<lparr>p_slot := 0\<rparr>))))"

text \<open>The \<open>while (!quit)\<close> loop, with the rounds counted. \<open>None\<close> is a loop never left.\<close>

partial_function (option) parallel_loop ::
  "environment \<Rightarrow> byte list \<Rightarrow> nat \<Rightarrow> nat \<Rightarrow> schedule \<Rightarrow> nat \<Rightarrow> pstate \<Rightarrow> pstate option" where
  "parallel_loop env key keylength threadcount sched round s =
     (if p_quit s \<or> p_status s \<noteq> Running then Some s
      else parallel_loop env key keylength threadcount sched (round + 1)
             (parallel_round env key keylength threadcount sched round s))"

declare parallel_loop.simps [code]

text \<open>
  \<open>encrypt_context_init\<close>: the lock and the two signals are taken to initialise; the array
  of thread handles needs \<open>malloc\<close>, and the first \<open>pthread_create\<close> that fails ends the
  start of the pool. The result is the value returned, what was printed, the value of
  \<open>context->threadcount\<close> (still 0 when the array was not allocated) and the number of
  threads created. In this environment every \<open>pthread_create\<close> returns the same value, so
  a failure is that of the first thread.
\<close>

definition encrypt_context_init ::
  "environment \<Rightarrow> nat \<Rightarrow> int \<times> diagnostic list \<times> nat \<times> nat" where
  "encrypt_context_init env threadcount =
     (if \<not> malloc_ok env then (- 1, [Diagnostic ''encrypt_context_init'' 243 None], 0, 0)
      else if 0 < threadcount \<and> pthread_create_result env \<noteq> 0
      then (pthread_create_result env,
            [Diagnostic ''encrypt_context_init'' 250 (Some (pthread_create_result env))],
            threadcount, 0)
      else (0, [], threadcount, threadcount))"

text \<open>
  \<open>encrypt_context_deinit\<close>, at the \<open>exit\<close> label: it signals and joins
  \<open>context->threadcount\<close> thread handles. The handles of threads that were never created
  are zero, and joining one is a fault. (The blocks left in the queues are freed and the
  lock and signals destroyed, which nothing observes.)
\<close>

definition encrypt_context_deinit :: "nat \<Rightarrow> nat \<Rightarrow> fault option" where
  "encrypt_context_deinit context_threadcount created =
     (if created < context_threadcount then Some InvalidThreadHandle else None)"

text \<open>How the function ends once control is at \<open>exit\<close> with the value \<open>retval\<close>.\<close>

definition leave_through_deinit :: "nat \<Rightarrow> nat \<Rightarrow> int \<Rightarrow> ending" where
  "leave_through_deinit context_threadcount created retval =
     (case encrypt_context_deinit context_threadcount created of
        None \<Rightarrow> Returned retval
      | Some f \<Rightarrow> Crash f)"

definition initial_pstate :: "byte list \<Rightarrow> pstate" where
  "initial_pstate input =
     \<lparr>blocks = (\<lambda>a. None), fresh = 0, process_queue = None, completion_queue = None,
      p_index = 0, p_slot = 0, p_quit = False, p_retval = 0,
      stdin = input, stdout = [], stderr = [], p_status = Running\<rparr>"

definition encrypt_execute_parallel ::
  "environment \<Rightarrow> schedule \<Rightarrow> byte list \<Rightarrow> nat \<Rightarrow> nat \<Rightarrow> byte list \<Rightarrow> result" where
  "encrypt_execute_parallel env sched key keylength threadcount input =
     (if \<not> (0 < keylength \<and> 0 < threadcount)
      then \<lparr>r_end = Crash AssertionFailed, r_stdout = [], r_stderr = []\<rparr>
      else
        (case encrypt_context_init env threadcount of
           (rv, diags, context_threadcount, created) \<Rightarrow>
             if rv \<noteq> 0
             then \<lparr>r_end = leave_through_deinit context_threadcount created rv, r_stdout = [],
                    r_stderr = diags @ [Diagnostic ''encrypt_execute_parallel'' 328 (Some rv)]\<rparr>
             else
               (case parallel_loop env key keylength threadcount sched 0
                       (initial_pstate input) of
                  None \<Rightarrow> \<lparr>r_end = Hang, r_stdout = [], r_stderr = []\<rparr>
                | Some s \<Rightarrow>
                    \<lparr>r_end =
                       (case ending_of (p_status s) (p_retval s) of
                          Returned retval \<Rightarrow>
                            leave_through_deinit context_threadcount created retval
                        | Crash f \<Rightarrow> Crash f
                        | Hang \<Rightarrow> Hang),
                     r_stdout = stdout s, r_stderr = stderr s\<rparr>)))"

section \<open>The program\<close>

text \<open>
  \<open>encrypt\<close>: open the key file, take its size as the key length, read the key, run one of
  the two modes. A \<open>verify\<close> that fails prints its line and makes \<open>encrypt\<close> return a value
  other than 0.
\<close>

definition encrypt_failed :: "nat \<Rightarrow> result" where
  "encrypt_failed line =
     \<lparr>r_end = Returned (- 1), r_stdout = [], r_stderr = [Diagnostic ''encrypt'' line None]\<rparr>"

text \<open>The \<open>verify\<close> around the call of a mode, at the given line.\<close>

definition verify_mode :: "nat \<Rightarrow> result \<Rightarrow> result" where
  "verify_mode line r =
     (case r_end r of
        Returned rv \<Rightarrow>
          if rv \<noteq> 0
          then r\<lparr>r_stderr := r_stderr r @ [Diagnostic ''encrypt'' line (Some rv)]\<rparr>
          else r
      | Crash f \<Rightarrow> r
      | Hang \<Rightarrow> r)"

definition encrypt ::
  "environment \<Rightarrow> schedule \<Rightarrow> string option \<Rightarrow> nat \<Rightarrow> byte list \<Rightarrow> result" where
  "encrypt env sched keyfilename threadcount input =
     (case keyfilename of
        None \<Rightarrow> encrypt_failed 426
      | Some name \<Rightarrow>
          (case files env name of
             None \<Rightarrow> encrypt_failed 427
           | Some content \<Rightarrow>
               if \<not> 0 < to_uint (length content) then encrypt_failed 430
               else if \<not> malloc_ok env then encrypt_failed 433
               else if threadcount = 0
               then verify_mode 438
                      (encrypt_execute_sequential env
                         (take (to_uint (length content)) content)
                         (to_uint (length content)) input)
               else verify_mode 442
                      (encrypt_execute_parallel env sched
                         (take (to_uint (length content)) content)
                         (to_uint (length content)) threadcount input)))"

text \<open>
  \<open>atoi\<close> of the C library on a string of decimal digits (what follows the digits is
  ignored), and the conversion of its value to \<open>unsigned int\<close>.
\<close>

fun atoi_digits :: "nat \<Rightarrow> string \<Rightarrow> nat" where
  "atoi_digits acc [] = acc"
| "atoi_digits acc (c # cs) =
     (if 48 \<le> (of_char c :: nat) \<and> (of_char c :: nat) \<le> 57
      then atoi_digits (10 * acc + (of_char c - 48)) cs
      else acc)"

definition atoi :: "string \<Rightarrow> int" where
  "atoi str =
     (case str of
        [] \<Rightarrow> 0
      | c # cs \<Rightarrow>
          if c = CHR ''-'' then - int (atoi_digits 0 cs)
          else if c = CHR ''+'' then int (atoi_digits 0 cs)
          else int (atoi_digits 0 (c # cs)))"

definition int_to_uint :: "int \<Rightarrow> nat" where
  "int_to_uint i = nat (i mod 4294967296)"

text \<open>
  The loop over the arguments of \<open>main\<close>, from the argument at \<open>index\<close> on: an option
  counts only when an argument follows it, which the loop then skips.
\<close>

fun parse_arguments :: "string list \<Rightarrow> nat \<times> string option \<Rightarrow> nat \<times> string option" where
  "parse_arguments [] (threadcount, keyfilename) = (threadcount, keyfilename)"
| "parse_arguments [a] (threadcount, keyfilename) = (threadcount, keyfilename)"
| "parse_arguments (a # b # rest) (threadcount, keyfilename) =
     (if a = ''-n'' then parse_arguments rest (int_to_uint (atoi b), keyfilename)
      else if a = ''-k'' then parse_arguments rest (threadcount, Some b)
      else parse_arguments (b # rest) (threadcount, keyfilename))"

text \<open>
  \<open>main\<close>: parse the arguments (the first is the name of the program), call \<open>encrypt\<close>
  and return 0. The result is how the process ended, with the exit status when it exited,
  and its two output streams.
\<close>

definition main :: "environment \<Rightarrow> schedule \<Rightarrow> string list \<Rightarrow> byte list \<Rightarrow> result" where
  "main env sched argv input =
     (case parse_arguments (tl argv) (0, None) of (threadcount, keyfilename) \<Rightarrow>
        (case encrypt env sched keyfilename threadcount input of r \<Rightarrow>
           (case r_end r of
              Returned rv \<Rightarrow> r\<lparr>r_end := Returned 0\<rparr>
            | Crash f \<Rightarrow> r
            | Hang \<Rightarrow> r)))"

section \<open>Queues as lists\<close>

text \<open>
  \<open>is_queue heap p as\<close>: from the pointer \<open>p\<close>, the \<open>next\<close> fields lead through exactly the
  allocated blocks at the addresses \<open>as\<close>, in this order, and then to \<open>NULL\<close>.
\<close>

fun is_queue :: "(addr \<Rightarrow> encrypt_block_info option) \<Rightarrow> addr option \<Rightarrow> addr list \<Rightarrow> bool" where
  "is_queue heap p [] = (p = None)"
| "is_queue heap p (a # as) =
     (p = Some a \<and> (case heap a of None \<Rightarrow> False | Some info \<Rightarrow> is_queue heap (b_next info) as))"

text \<open>The index of the block at an address, and what \<open>fwrite\<close> takes from it.\<close>

definition index_at :: "(addr \<Rightarrow> encrypt_block_info option) \<Rightarrow> addr \<Rightarrow> nat" where
  "index_at heap a = (case heap a of None \<Rightarrow> 0 | Some info \<Rightarrow> b_index info)"

definition data_at :: "(addr \<Rightarrow> encrypt_block_info option) \<Rightarrow> addr \<Rightarrow> byte list" where
  "data_at heap a = (case heap a of None \<Rightarrow> [] | Some info \<Rightarrow> take (b_length info) (b_block info))"

text \<open>The pieces in which a stream is read with a buffer of \<open>n\<close> bytes.\<close>

function chunks :: "nat \<Rightarrow> byte list \<Rightarrow> byte list list" where
  "chunks n xs = (if n = 0 \<or> xs = [] then [] else take n xs # chunks n (drop n xs))"
  by pat_completeness auto
termination
  by (relation "measure (\<lambda>(n, xs). length xs)") auto

declare chunks.simps [simp del]

text \<open>
  The state of the coordinator after \<open>encrypt_block_init\<close> and a read of at least one byte
  into the new block.
\<close>

definition after_read :: "nat \<Rightarrow> pstate \<Rightarrow> pstate" where
  "after_read keylength s =
     s\<lparr>fresh := fresh s + 1, stdin := drop keylength (stdin s),
       blocks := (blocks s)(fresh s \<mapsto>
          \<lparr>b_index = p_index s,
           b_block = take keylength (stdin s) @
                     drop (min keylength (length (stdin s))) (malloc_bytes keylength),
           b_length = min keylength (length (stdin s)), b_next = None\<rparr>)\<rparr>"

text \<open>A state in which two blocks, of index 0 and 1, have been processed and the block of
  index 1 is the only one in the completion queue.\<close>

definition second_block_first :: pstate where
  "second_block_first =
     (initial_pstate [])
       \<lparr>blocks := [0 \<mapsto> \<lparr>b_index = 0, b_block = [0x01], b_length = 1, b_next = None\<rparr>,
                   1 \<mapsto> \<lparr>b_index = 1, b_block = [0x02], b_length = 1, b_next = None\<rparr>],
        fresh := 2, completion_queue := Some 1\<rparr>"

text \<open>An environment in which memory and threads are available and no file exists, and one
  in which the key file \<open>key.bin\<close> holds the given bytes.\<close>

definition no_files :: environment where
  "no_files = \<lparr>files = (\<lambda>name. None), malloc_ok = True, pthread_create_result = 0\<rparr>"

definition with_key_file :: "byte list \<Rightarrow> environment" where
  "with_key_file content =
     \<lparr>files = (\<lambda>name. if name = ''key.bin'' then Some content else None),
      malloc_ok = True, pthread_create_result = 0\<rparr>"

section \<open>Properties of the bit rotation\<close>

lemma and_0x80_iff: "((b :: byte) AND 0x80 \<noteq> 0) = bit b 7"
  using and_exp_eq_0_iff_not_bit [of b 7] by simp

lemma shift_scan_length [simp]: "length (shift_scan key keylength index) = length key"
  by (induction key keylength index rule: shift_scan.induct)
     (subst shift_scan.simps, simp add: Let_def)

lemma shift_scan_nth:
  "length key = keylength \<Longrightarrow> j < keylength \<Longrightarrow>
   shift_scan key keylength index ! j =
     (if j < index then key ! j
      else if j + 1 < keylength
           then push_bit 1 (key ! j) OR (if (key ! (j + 1)) AND 0x80 \<noteq> 0 then 0x1 else 0x0)
           else push_bit 1 (key ! j))"
proof (induction key keylength index rule: shift_scan.induct)
  case (1 key keylength index)
  show ?case
  proof (cases "index < keylength")
    case False
    with 1(3) show ?thesis by (subst shift_scan.simps) simp
  next
    case True
    note lt = this
    show ?thesis
    proof (cases "index + 1 \<ge> keylength")
      case True
      with lt 1(2,3) have "j < index \<or> j = index" by auto
      with True lt 1(2,3) show ?thesis
        by (subst shift_scan.simps) (auto simp: Let_def nth_list_update)
    next
      case False
      let ?key1 = "key[index := push_bit 1 (key ! index)]"
      let ?key2 = "?key1[index := (?key1 ! index) OR
                      (if (?key1 ! (index + 1)) AND 0x80 \<noteq> 0 then 0x1 else 0x0)]"
      have IH: "shift_scan ?key2 keylength (index + 1) ! j =
        (if j < index + 1 then ?key2 ! j
         else if j + 1 < keylength
           then push_bit 1 (?key2 ! j) OR (if (?key2 ! (j + 1)) AND 0x80 \<noteq> 0 then 0x1 else 0x0)
           else push_bit 1 (?key2 ! j))"
        using 1(1) [OF lt refl False] 1(2,3) by simp
      have unf: "shift_scan key keylength index = shift_scan ?key2 keylength (index + 1)"
        using lt False by (subst shift_scan.simps) (simp add: Let_def)
      consider "j < index" | "j = index" | "index < j" by linarith
      then show ?thesis
      proof cases
        case 1
        then show ?thesis unfolding unf IH by (simp add: nth_list_update)
      next
        case 2
        then show ?thesis using lt False 1(2,3) unfolding unf IH by (simp add: nth_list_update)
      next
        case 3
        then show ?thesis using lt False 1(2,3) unfolding unf IH by (simp add: nth_list_update)
      qed
    qed
  qed
qed

lemma rotate_bits_pass_length [simp]:
  "length (rotate_bits_pass key keylength) = length key"
  by (simp add: rotate_bits_pass_def Let_def)

lemma rotate_bits_pass_nth:
  assumes "length key = keylength" and "j < keylength"
  shows "rotate_bits_pass key keylength ! j =
           push_bit 1 (key ! j) OR top_bit (key ! ((j + 1) mod keylength))"
proof (cases "j + 1 < keylength")
  case True
  with assms show ?thesis
    by (simp add: rotate_bits_pass_def Let_def nth_list_update shift_scan_nth top_bit_def)
next
  case False
  with assms have j: "j = keylength - 1" "j + 1 = keylength" by auto
  with assms show ?thesis
    by (simp add: rotate_bits_pass_def Let_def nth_list_update shift_scan_nth top_bit_def)
qed

lemma length_byte_bits [simp]: "length (byte_bits b) = 8"
  by (simp add: byte_bits_def)

lemma byte_bits_nth: "k < 8 \<Longrightarrow> byte_bits b ! k = bit b (7 - k)"
  by (simp add: byte_bits_def rev_nth)

lemma length_key_bits [simp]: "length (key_bits key) = 8 * length key"
  by (induction key) (simp_all add: key_bits_def)

lemma key_bits_nth:
  "n < 8 * length key \<Longrightarrow> key_bits key ! n = bit (key ! (n div 8)) (7 - n mod 8)"
proof (induction key arbitrary: n)
  case Nil
  then show ?case by simp
next
  case (Cons b key)
  show ?case
  proof (cases "n < 8")
    case True
    then show ?thesis
      using byte_bits_nth [of n b] by (simp add: key_bits_def nth_append)
  next
    case False
    define m where "m = n - 8"
    with False have n: "n = m + 8" by simp
    have "key_bits (b # key) ! n = key_bits key ! m"
      by (simp add: n key_bits_def nth_append)
    also have "\<dots> = bit (key ! (m div 8)) (7 - m mod 8)"
      using Cons.prems n by (intro Cons.IH) simp
    also have "\<dots> = bit ((b # key) ! (n div 8)) (7 - n mod 8)"
      using div_add_self2 [of 8 m] by (simp add: n)
    finally show ?thesis .
  qed
qed

lemma bit_times2: "bit (b * 2 :: byte) n \<longleftrightarrow> 0 < n \<and> n < 8 \<and> bit b (n - 1)"
  using bit_push_bit_iff [of 1 b n] by (auto simp: push_bit_eq_mult possible_bit_word)

lemma top_bit_bit: "bit (top_bit b) n \<longleftrightarrow> n = 0 \<and> bit b 7"
  by (simp add: top_bit_def and_0x80_iff bit_1_iff)

lemma rotate_bits_pass_bits:
  assumes len: "length key = keylength" and pos: "0 < keylength"
  shows "key_bits (rotate_bits_pass key keylength) = rotate1 (key_bits key)"
proof (rule nth_equalityI)
  show "length (key_bits (rotate_bits_pass key keylength)) = length (rotate1 (key_bits key))"
    by simp
next
  fix n assume "n < length (key_bits (rotate_bits_pass key keylength))"
  then have n: "n < 8 * keylength" using len by simp
  then have d: "n div 8 < keylength" by simp
  have L: "key_bits (rotate_bits_pass key keylength) ! n =
        bit (push_bit 1 (key ! (n div 8)) OR top_bit (key ! ((n div 8 + 1) mod keylength)))
            (7 - n mod 8)"
    using n len by (simp add: key_bits_nth rotate_bits_pass_nth [OF len d])
  have R: "rotate1 (key_bits key) ! n = key_bits key ! ((n + 1) mod (8 * keylength))"
    using n len by (simp add: nth_rotate1)
  show "key_bits (rotate_bits_pass key keylength) ! n = rotate1 (key_bits key) ! n"
  proof (cases "n mod 8 = 7")
    case True
    have e: "(n + 1) mod (8 * keylength) = 8 * ((n div 8 + 1) mod keylength)"
    proof -
      have "n + 1 = 8 * (n div 8 + 1)" using True mult_div_mod_eq [of 8 n] by simp
      then have "(n + 1) mod (8 * keylength) = (8 * (n div 8 + 1)) mod (8 * keylength)"
        by (rule arg_cong)
      also have "\<dots> = 8 * ((n div 8 + 1) mod keylength)"
        by (rule mult_mod_right [symmetric])
      finally show ?thesis .
    qed
    have m: "(n div 8 + 1) mod keylength < keylength" using pos by simp
    show ?thesis
      unfolding L R e using True m len
      by (simp add: key_bits_nth bit_or_iff bit_times2 top_bit_bit)
  next
    case False
    moreover have "n mod 8 < 8" by simp
    ultimately have lt: "n mod 8 < 7" by linarith
    have "n mod 8 + 8 * (n div 8) = n" by simp
    moreover have "8 * (n div 8) + 8 \<le> 8 * keylength" using d by simp
    ultimately have s: "n + 1 < 8 * keylength" using lt by linarith
    have md: "Suc n mod 8 = Suc (n mod 8)"
      using lt by (simp add: mod_Suc)
    have dv: "Suc n div 8 = n div 8"
      using lt by (simp add: div_Suc md)
    have "7 - n mod 8 - 1 = 7 - Suc (n mod 8)" and "7 - n mod 8 < 8" by simp_all
    then show ?thesis
      unfolding L R using s lt len
      by (simp add: key_bits_nth dv md bit_or_iff bit_times2 top_bit_bit)
  qed
qed


lemma encrypt_rotate_key_bits_length [simp]:
  "length (encrypt_rotate_key_bits key keylength shift) = length key"
  by (induction shift arbitrary: key) simp_all

lemma encrypt_rotate_key_bits_bits:
  assumes len: "length key = keylength" and pos: "0 < keylength"
  shows "key_bits (encrypt_rotate_key_bits key keylength shift) = rotate shift (key_bits key)"
  using len
proof (induction shift arbitrary: key)
  case 0
  then show ?case by simp
next
  case (Suc shift)
  have "key_bits (encrypt_rotate_key_bits (rotate_bits_pass key keylength) keylength shift) =
        rotate shift (key_bits (rotate_bits_pass key keylength))"
    using Suc.prems by (intro Suc.IH) simp
  also have "\<dots> = rotate shift (rotate1 (key_bits key))"
    using rotate_bits_pass_bits [OF Suc.prems pos] by simp
  also have "\<dots> = rotate (Suc shift) (key_bits key)"
    by (simp add: rotate1_rotate_swap)
  finally show ?case by simp
qed

text \<open>
  Claim C9, as the code has it. One pass of the bit rotation takes the most significant bit
  of byte \<open>i + 1\<close> into the least significant bit of byte \<open>i\<close>, and the most significant
  bit of byte 0 into the least significant bit of the last byte. Read as a big-endian bit
  string with byte 0 first, the key is rotated left by one bit by each pass, and by
  \<open>shift\<close> bits by \<open>shift\<close> passes.
\<close>

theorem rotate_bits_pass_left_rotation:
  assumes len: "length key = keylength" and pos: "0 < keylength"
  shows "(\<forall>i. i + 1 < keylength \<longrightarrow>
            rotate_bits_pass key keylength ! i = push_bit 1 (key ! i) OR top_bit (key ! (i + 1)))
       \<and> rotate_bits_pass key keylength ! (keylength - 1) =
            push_bit 1 (key ! (keylength - 1)) OR top_bit (key ! 0)
       \<and> key_bits (rotate_bits_pass key keylength) = rotate1 (key_bits key)
       \<and> key_bits (encrypt_rotate_key_bits key keylength shift) = rotate shift (key_bits key)"
proof (intro conjI allI impI)
  fix i assume "i + 1 < keylength"
  then show "rotate_bits_pass key keylength ! i = push_bit 1 (key ! i) OR top_bit (key ! (i + 1))"
    using rotate_bits_pass_nth [OF len, of i] by simp
next
  show "rotate_bits_pass key keylength ! (keylength - 1) =
          push_bit 1 (key ! (keylength - 1)) OR top_bit (key ! 0)"
    using rotate_bits_pass_nth [OF len, of "keylength - 1"] pos by simp
next
  show "key_bits (rotate_bits_pass key keylength) = rotate1 (key_bits key)"
    by (rule rotate_bits_pass_bits [OF len pos])
next
  show "key_bits (encrypt_rotate_key_bits key keylength shift) = rotate shift (key_bits key)"
    by (rule encrypt_rotate_key_bits_bits [OF len pos])
qed

theorem rotate_bits_pass_left_rotation_witness:
  "length [0x80, 0x00, 0x00 :: byte] = 3 \<and> (0 :: nat) < 3
   \<and> rotate_bits_pass [0x80, 0x00, 0x00] 3 ! 2 = push_bit 1 0x00 OR top_bit 0x80
   \<and> key_bits (rotate_bits_pass [0x80, 0x00, 0x00] 3) = rotate1 (key_bits [0x80, 0x00, 0x00])
   \<and> key_bits (encrypt_rotate_key_bits [0x80, 0x00, 0x00] 3 5) =
         rotate 5 (key_bits [0x80, 0x00, 0x00])"
  using rotate_bits_pass_left_rotation [of "[0x80, 0x00, 0x00]" 3 5] by simp

text \<open>
  Claim C9 as the specification words it has the carry go from byte \<open>i\<close> into byte
  \<open>i + 1\<close>. On the key \<open>80 00 00\<close> the top bit of byte 0 is set, and after one pass the low
  bit of byte 1 is clear: the bit went to the last byte.
\<close>

theorem rotate_bits_pass_carry_counterexample:
  "rotate_bits_pass [0x80, 0x00, 0x00] 3 = [0x00, 0x00, 0x01]
   \<and> bit ([0x80, 0x00, 0x00 :: byte] ! 0) 7
   \<and> \<not> bit (rotate_bits_pass [0x80, 0x00, 0x00] 3 ! (0 + 1)) 0"
proof -
  have "rotate_bits_pass [0x80, 0x00, 0x00] 3 = [0x00, 0x00, 0x01]"
    by code_simp
  then show ?thesis by simp
qed

section \<open>Termination and faults of the key rotation\<close>

lemma cycle_walk_Some_reaches:
  assumes "cycle_walk key keylength shift index pos = Some y"
  shows "\<exists>p. next_pos keylength shift p = index"
proof (rule cycle_walk.raw_induct
    [where P = "\<lambda>key keylength shift index pos y. \<exists>p. next_pos keylength shift p = index",
      OF _ assms])
  fix walk key keylength shift index pos and y :: "byte list \<times> nat"
  assume IH: "\<And>key keylength shift index pos y.
      walk key keylength shift index pos = Some y \<Longrightarrow> \<exists>p. next_pos keylength shift p = index"
    and step: "(if next_pos keylength shift pos = index then Some (key, pos)
       else walk (key[pos := key ! next_pos keylength shift pos]) keylength shift index
              (next_pos keylength shift pos)) = Some y"
  show "\<exists>p. next_pos keylength shift p = index"
  proof (cases "next_pos keylength shift pos = index")
    case True
    then show ?thesis by blast
  next
    case False
    with step IH show ?thesis by simp
  qed
qed

lemma cycle_walk_diverges:
  "(\<And>p. next_pos keylength shift p \<noteq> index) \<Longrightarrow>
   cycle_walk key keylength shift index pos = None"
  using cycle_walk_Some_reaches [of key keylength shift index pos]
  by (cases "cycle_walk key keylength shift index pos") auto

lemma next_pos_257_0: "next_pos 257 0 p \<noteq> 256"
proof -
  have "to_uchar p < 256" by (simp add: to_uchar_def)
  then show ?thesis by (simp add: next_pos_def Let_def)
qed

lemma cycle_walk_stay:
  "index < 256 \<Longrightarrow> index < keylength \<Longrightarrow>
   cycle_walk key keylength 0 index index = Some (key, index)"
  by (subst cycle_walk.simps) (simp add: next_pos_def to_uchar_def)

lemma rotate_cycles_skip:
  "index \<le> 256 \<Longrightarrow> 256 < keylength \<Longrightarrow> 256 < cycles \<Longrightarrow>
   rotate_cycles key keylength 0 cycles index = rotate_cycles key keylength 0 cycles 256"
proof (induction "256 - index" arbitrary: index)
  case 0
  then show ?case by simp
next
  case (Suc n)
  then have lt: "index < 256" by simp
  have "rotate_cycles key keylength 0 cycles index =
        rotate_cycles key keylength 0 cycles (index + 1)"
    using lt Suc.prems by (subst rotate_cycles.simps) (simp add: cycle_walk_stay)
  also have "\<dots> = rotate_cycles key keylength 0 cycles 256"
    using Suc.hyps(2) lt Suc.prems by (intro Suc.hyps(1)) simp_all
  finally show ?case .
qed

lemma compute_gcd_0_257: "compute_gcd 0 257 = 257"
  by (simp add: compute_gcd.simps)


text \<open>
  Claim C10 at a key of 257 bytes and a shift of 2048 bits. The byte shift is 256; narrowed
  to \<open>unsigned char\<close> it is 0, the number of cycles is \<open>compute_gcd 0 257 = 257\<close>, and the
  walk of cycle 256 never meets an 8-bit \<open>next\<close> equal to 256: the call does not return.
  At a key of \<open>2 ^ 29\<close> bytes the 32-bit product \<open>keylength * 8\<close> is 0 and the remainder
  divides by zero.
\<close>

theorem encrypt_rotate_key_not_total:
  "encrypt_rotate_key key 257 2048 = Diverges
   \<and> encrypt_rotate_key key (2 ^ 29) shift = Faults DivisionByZero"
proof
  have "rotate_cycles key 257 0 257 0 = rotate_cycles key 257 0 257 256"
    by (rule rotate_cycles_skip) simp_all
  also have "\<dots> = None"
    using cycle_walk_diverges [of 257 0 256 key 256, OF next_pos_257_0]
    by (subst rotate_cycles.simps) simp
  finally have "encrypt_rotate_key_bytes key 257 256 = Diverges"
    by (simp add: encrypt_rotate_key_bytes_def to_uchar_def compute_gcd_0_257)
  then show "encrypt_rotate_key key 257 2048 = Diverges"
    by (simp add: encrypt_rotate_key_def to_uint_def)
next
  show "encrypt_rotate_key key (2 ^ 29) shift = Faults DivisionByZero"
    by (simp add: encrypt_rotate_key_def to_uint_def)
qed

section \<open>Composition of rotations\<close>

lemma bytes_129_128:
  "encrypt_rotate_key_bytes (1 # replicate 128 0) 129 128 = Returns (replicate 128 0 @ [1])"
  by code_simp

lemma bytes_129_1:
  "encrypt_rotate_key_bytes (replicate 128 0 @ [1]) 129 (Suc 0) =
     Returns (replicate 127 0 @ [1, 0])"
  by code_simp

text \<open>
  Claim C2 at a key of 129 bytes, \<open>01\<close> followed by 128 zero bytes, with \<open>a = 1024\<close> and
  \<open>b = 8\<close>. The byte shift of 128 makes \<open>pos + shift\<close> reach 256, which the 8-bit \<open>next\<close>
  holds as 0: the walk only exchanges bytes 0 and 128. Rotating the result by 8 more bits
  gives a key with \<open>01\<close> at position 127, while \<open>(a + b) mod (8 * 129) = 0\<close> leaves the key
  as it is.
\<close>

theorem encrypt_rotate_key_composition_fails:
  "obind (encrypt_rotate_key (1 # replicate 128 0) 129 1024)
         (\<lambda>key1. encrypt_rotate_key key1 129 8) = Returns (replicate 127 0 @ [1, 0])
   \<and> encrypt_rotate_key (1 # replicate 128 0) 129 ((1024 + 8) mod (8 * 129)) =
         Returns (1 # replicate 128 0)
   \<and> replicate 127 0 @ [1, 0] \<noteq> 1 # replicate 128 (0 :: byte)"
proof (intro conjI)
  have a: "encrypt_rotate_key (1 # replicate 128 0) 129 1024 = Returns (replicate 128 0 @ [1])"
    by (simp add: encrypt_rotate_key_def to_uint_def bytes_129_128)
  have b: "encrypt_rotate_key (replicate 128 0 @ [1]) 129 8 = Returns (replicate 127 0 @ [1, 0])"
    by (simp add: encrypt_rotate_key_def to_uint_def bytes_129_1)
  show "obind (encrypt_rotate_key (1 # replicate 128 0) 129 1024)
          (\<lambda>key1. encrypt_rotate_key key1 129 8) = Returns (replicate 127 0 @ [1, 0])"
    by (simp add: a b)
next
  show "encrypt_rotate_key (1 # replicate 128 0) 129 ((1024 + 8) mod (8 * 129)) =
          Returns (1 # replicate 128 0)"
    by (simp add: encrypt_rotate_key_def to_uint_def)
next
  show "replicate 127 0 @ [1, 0] \<noteq> 1 # replicate 128 (0 :: byte)"
  proof
    assume "replicate 127 0 @ [1, 0] = 1 # replicate 128 (0 :: byte)"
    then have "hd (replicate 127 0 @ [1, 0]) = hd (1 # replicate 128 (0 :: byte))"
      by (rule arg_cong)
    then show False by (simp add: hd_append)
  qed
qed

section \<open>The process queue and the submission round\<close>



lemma submit_fields [simp]:
  "p_slot (submit a s) = p_slot s" "p_index (submit a s) = p_index s"
  "p_quit (submit a s) = p_quit s" "stdin (submit a s) = stdin s"
  "stdout (submit a s) = stdout s" "fresh (submit a s) = fresh s"
  "completion_queue (submit a s) = completion_queue s"
  by (simp_all add: submit_def set_next_def split: option.splits outcome.splits)

lemma set_next_data [simp]:
  "data_at (blocks (set_next a v s)) x = data_at (blocks s) x"
  "index_at (blocks (set_next a v s)) x = index_at (blocks s) x"
  by (auto simp: set_next_def data_at_def index_at_def split: option.splits)




lemma chunks_Nil [simp]: "chunks n [] = []"
  by (subst chunks.simps) simp

lemma chunks_Cons:
  "0 < n \<Longrightarrow> xs \<noteq> [] \<Longrightarrow> chunks n xs = take n xs # chunks n (drop n xs)"
  by (subst chunks.simps) simp

lemma fread_empty [simp]: "fread buffer n [] = (0, buffer, [])"
  by (simp add: fread_def)







lemma after_read_fields [simp]:
  "p_status (after_read keylength s) = p_status s"
  "p_slot (after_read keylength s) = p_slot s"
  "p_quit (after_read keylength s) = p_quit s"
  "p_index (after_read keylength s) = p_index s"
  "stdout (after_read keylength s) = stdout s"
  "completion_queue (after_read keylength s) = completion_queue s"
  "process_queue (after_read keylength s) = process_queue s"
  "stdin (after_read keylength s) = drop keylength (stdin s)"
  "fresh (after_read keylength s) = fresh s + 1"
  by (simp_all add: after_read_def)






section \<open>What a submission round reads\<close>

lemma chunks_tail_full:
  assumes "chunks n (drop n xs) \<noteq> []"
  shows "length (take n xs) = n"
proof -
  have "drop n xs \<noteq> []"
  proof
    assume "drop n xs = []"
    then have "chunks n (drop n xs) = []" by simp
    with assms show False by simp
  qed
  then show ?thesis by simp
qed

lemma chunks_step:
  assumes c: "chunks n xs = take n xs # chunks n (drop n xs)" and ne: "xs \<noteq> []" and n: "0 < n"
    and IH1: "concat (chunks n (drop n xs)) = drop n xs"
    and IH2: "\<forall>c\<in>set (chunks n (drop n xs)). c \<noteq> [] \<and> length c \<le> n"
    and IH3: "\<forall>c\<in>set (butlast (chunks n (drop n xs))). length c = n"
  shows "concat (chunks n xs) = xs
       \<and> (\<forall>c\<in>set (chunks n xs). c \<noteq> [] \<and> length c \<le> n)
       \<and> (\<forall>c\<in>set (butlast (chunks n xs)). length c = n)"
proof (intro conjI)
  show "concat (chunks n xs) = xs"
    by (simp only: c concat.simps IH1 append_take_drop_id)
next
  have "take n xs \<noteq> [] \<and> length (take n xs) \<le> n"
    using ne n by simp
  with IH2 show "\<forall>c\<in>set (chunks n xs). c \<noteq> [] \<and> length c \<le> n"
    unfolding c by (simp only: set_simps ball_simps) blast
next
  show "\<forall>c\<in>set (butlast (chunks n xs)). length c = n"
  proof (cases "chunks n (drop n xs) = []")
    case True
    then show ?thesis unfolding c by simp
  next
    case False
    with chunks_tail_full [OF False] IH3 show ?thesis
      unfolding c by (simp only: butlast.simps if_False set_simps) blast
  qed
qed

lemma chunks_properties:
  "0 < n \<Longrightarrow>
   concat (chunks n xs) = xs
   \<and> (\<forall>c\<in>set (chunks n xs). c \<noteq> [] \<and> length c \<le> n)
   \<and> (\<forall>c\<in>set (butlast (chunks n xs)). length c = n)"
proof (induction n xs rule: chunks.induct)
  case (1 n xs)
  show ?case
  proof (cases "xs = []")
    case True
    then show ?thesis by simp
  next
    case False
    have ne: "\<not> (n = 0 \<or> xs = [])" using False 1(2) by blast
    from 1(1) [OF ne 1(2)]
    have IH1: "concat (chunks n (drop n xs)) = drop n xs"
      and IH2: "\<forall>c\<in>set (chunks n (drop n xs)). c \<noteq> [] \<and> length c \<le> n"
      and IH3: "\<forall>c\<in>set (butlast (chunks n (drop n xs))). length c = n"
      by (rule conjunct1, rule conjunct2 [THEN conjunct1], rule conjunct2 [THEN conjunct2])
    show ?thesis
      by (rule chunks_step [OF chunks_Cons [OF 1(2) False] False 1(2) IH1 IH2 IH3])
  qed
qed





section \<open>Runs on concrete inputs\<close>

lemma encrypt_rotate_key_bits_numeral:
  "encrypt_rotate_key_bits key keylength (numeral n) =
     encrypt_rotate_key_bits (rotate_bits_pass key keylength) keylength (pred_numeral n)"
  by (simp add: numeral_eq_Suc)

lemmas rotate_eval = encrypt_rotate_key_bits_numeral
  encrypt_rotate_key_def to_uint_def to_uchar_def encrypt_rotate_key_bytes_def
  rotate_bits_pass_def shift_scan.simps compute_gcd.simps rotate_cycles.simps next_pos_def Let_def

lemmas block_eval = xor_scan.simps encrypt_block_def fread_def fwrite_def malloc_bytes_def

lemmas sequential_eval = encrypt_execute_sequential_def sequential_loop.simps no_files_def

lemmas parallel_eval = encrypt_execute_parallel_def encrypt_context_init_def
  encrypt_context_deinit_def leave_through_deinit_def initial_pstate_def
  parallel_loop.simps parallel_round_def submit_loop.simps encrypt_block_init_def
  encrypt_block_deinit_def submit_def set_next_def queue_last.simps worker_take_def
  worker_complete_def queue_scan.simps drain_def drain_loop.simps no_files_def

lemmas main_eval = main_def encrypt_def encrypt_failed_def verify_mode_def atoi_def
  int_to_uint_def with_key_file_def no_files_def to_uint_def

text \<open>
  Claim C1 with the key \<open>01\<close>, the input \<open>00 00\<close> and two workers, when the worker that
  holds the block of index 1 completes first. Sequential mode writes \<open>01 02\<close>. In parallel
  mode the block of index 0 is linked behind the head of the completion queue, which is the
  block of index 1, and the head's \<open>next\<close> is made to point back to the head: the
  coordinator writes \<open>02 01\<close>, frees both blocks and then follows the pointer into a freed
  block.
\<close>

theorem parallel_differs_from_sequential:
  "encrypt_execute_sequential no_files [0x01] 1 [0x00, 0x00] =
     \<lparr>r_end = Returned 0, r_stdout = [0x01, 0x02], r_stderr = []\<rparr>
   \<and> encrypt_execute_parallel no_files (\<lambda>round. rev) [0x01] 1 2 [0x00, 0x00] =
     \<lparr>r_end = Crash UseAfterFree, r_stdout = [0x02, 0x01], r_stderr = []\<rparr>"
  by (simp add: sequential_eval parallel_eval rotate_eval block_eval)

text \<open>
  Claim C3 on the completion queue that holds only the block of index 1, when the block of
  index 0 completes. The search stops at the head with \<open>previous\<close> still equal to the head;
  the new block is linked behind the head and its own \<open>next\<close> is set to the head. The head
  of the queue is unchanged, the two blocks point at each other, and no list of addresses
  describes what the head now leads to.
\<close>

lemma two_cycle_is_no_queue:
  assumes "map_option b_next (heap 1) = Some (Some 0)"
    and "map_option b_next (heap 0) = Some (Some 1)"
  shows "\<not> is_queue heap (Some 0) as \<and> \<not> is_queue heap (Some 1) as"
proof (induction as)
  case Nil
  then show ?case by simp
next
  case (Cons a as)
  then show ?case using assms by (auto split: option.splits)
qed

theorem worker_complete_before_head:
  "is_queue (blocks second_block_first) (completion_queue second_block_first) [1]
   \<and> completion_queue (worker_complete 0 second_block_first) = Some 1
   \<and> map_option b_next (blocks (worker_complete 0 second_block_first) 1) = Some (Some 0)
   \<and> map_option b_next (blocks (worker_complete 0 second_block_first) 0) = Some (Some 1)
   \<and> \<not> is_queue (blocks (worker_complete 0 second_block_first))
          (completion_queue (worker_complete 0 second_block_first)) as"
proof -
  have q: "is_queue (blocks second_block_first) (completion_queue second_block_first) [1]"
    by (simp add: second_block_first_def initial_pstate_def)
  have e: "completion_queue (worker_complete 0 second_block_first) = Some 1
     \<and> map_option b_next (blocks (worker_complete 0 second_block_first) 1) = Some (Some 0)
     \<and> map_option b_next (blocks (worker_complete 0 second_block_first) 0) = Some (Some 1)"
    by (simp add: second_block_first_def initial_pstate_def worker_complete_def
        queue_scan.simps set_next_def)
  from e two_cycle_is_no_queue [of "blocks (worker_complete 0 second_block_first)" as]
  have "\<not> is_queue (blocks (worker_complete 0 second_block_first))
          (completion_queue (worker_complete 0 second_block_first)) as"
    by simp
  with q e show ?thesis by simp
qed

text \<open>
  Claim C4 on four failed setups: no \<open>-k\<close> option, a key file that cannot be opened, an
  empty key file, and no memory for the key. Each prints its diagnostic and processes
  nothing, and \<open>encrypt\<close> returns a value other than 0; but \<open>main\<close> does not look at that
  value and the process exits with status 0.
\<close>

theorem main_exits_zero_on_setup_failure:
  "main no_files sched [''encrypt''] input =
     \<lparr>r_end = Returned 0, r_stdout = [], r_stderr = [Diagnostic ''encrypt'' 426 None]\<rparr>
   \<and> main no_files sched [''encrypt'', ''-k'', ''key.bin''] input =
     \<lparr>r_end = Returned 0, r_stdout = [], r_stderr = [Diagnostic ''encrypt'' 427 None]\<rparr>
   \<and> main (with_key_file []) sched [''encrypt'', ''-k'', ''key.bin''] input =
     \<lparr>r_end = Returned 0, r_stdout = [], r_stderr = [Diagnostic ''encrypt'' 430 None]\<rparr>
   \<and> main ((with_key_file [0x01])\<lparr>malloc_ok := False\<rparr>) sched
          [''encrypt'', ''-k'', ''key.bin''] input =
     \<lparr>r_end = Returned 0, r_stdout = [], r_stderr = [Diagnostic ''encrypt'' 433 None]\<rparr>"
  by (simp add: main_eval)

text \<open>
  When the first thread cannot be started, \<open>encrypt_context_init\<close> and
  \<open>encrypt_execute_parallel\<close> print their diagnostics, and the cleanup at \<open>exit\<close> then joins
  thread handles that were never created: the run ends in that fault, before \<open>encrypt\<close> or
  \<open>main\<close> get control back.
\<close>

lemma main_faults_when_thread_start_fails:
  "main ((with_key_file [0x01])\<lparr>pthread_create_result := 11\<rparr>) sched
          [''encrypt'', ''-n'', ''2'', ''-k'', ''key.bin''] input =
     \<lparr>r_end = Crash InvalidThreadHandle, r_stdout = [],
      r_stderr = [Diagnostic ''encrypt_context_init'' 250 (Some 11),
                  Diagnostic ''encrypt_execute_parallel'' 328 (Some 11)]\<rparr>"
  by (simp add: main_eval encrypt_execute_parallel_def encrypt_context_init_def
      encrypt_context_deinit_def leave_through_deinit_def)

lemma encrypt_returns_nonzero_on_missing_key_file:
  "encrypt no_files sched (Some ''key.bin'') threadcount input =
     \<lparr>r_end = Returned (- 1), r_stdout = [], r_stderr = [Diagnostic ''encrypt'' 427 None]\<rparr>"
  by (simp add: main_eval)

lemma main_exits_zero_on_completion:
  "main (with_key_file [0x01]) sched [''encrypt'', ''-k'', ''key.bin''] [0x00, 0x00] =
     \<lparr>r_end = Returned 0, r_stdout = [0x01, 0x02], r_stderr = []\<rparr>"
  by (simp add: main_eval sequential_eval rotate_eval block_eval)

text \<open>
  Claim C6 with the key \<open>01\<close> and the input \<open>10 20\<close>: sequential mode produces \<open>11 22\<close>.
  Run on \<open>11 22\<close> with two workers, when the block of index 1 completes first, the program
  writes \<open>20 10\<close> and then follows a pointer into a freed block.
\<close>

theorem parallel_does_not_invert_sequential:
  "encrypt_execute_sequential no_files [0x01] 1 [0x10, 0x20] =
     \<lparr>r_end = Returned 0, r_stdout = [0x11, 0x22], r_stderr = []\<rparr>
   \<and> encrypt_execute_parallel no_files (\<lambda>round. rev) [0x01] 1 2 [0x11, 0x22] =
     \<lparr>r_end = Crash UseAfterFree, r_stdout = [0x20, 0x10], r_stderr = []\<rparr>"
  by (simp add: sequential_eval parallel_eval rotate_eval block_eval)

text \<open>
  Claim C7 with the key \<open>01\<close>, three input bytes and three workers, when the blocks
  complete in the order 1, 2, 0. The block of index 0 is linked behind the head and the
  head's \<open>next\<close>, which led to the block of index 2, is overwritten: two bytes are written
  for three bytes read, then the coordinator follows a pointer into a freed block.
\<close>

theorem parallel_writes_less_than_read:
  "encrypt_execute_parallel no_files (\<lambda>round. rotate1) [0x01] 1 3 [0x00, 0x00, 0x00] =
     \<lparr>r_end = Crash UseAfterFree, r_stdout = [0x02, 0x01], r_stderr = []\<rparr>
   \<and> length [0x02, 0x01 :: byte] < length [0x00, 0x00, 0x00 :: byte]"
  by (simp add: parallel_eval rotate_eval block_eval)

text \<open>
  Claim C8 with the key \<open>01\<close> (so \<open>L = 1\<close>), ten input bytes and four workers, when the
  blocks of a round complete in reverse order. The first round submits four blocks; its
  drain writes the blocks of index 3 and 0 and then follows a pointer into a freed block.
  No second round is submitted.
\<close>

theorem four_workers_stop_in_first_batch:
  "encrypt_execute_parallel no_files (\<lambda>round. rev) [0x01] 1 4 [0, 0, 0, 0, 0, 0, 0, 0, 0, 0] =
     \<lparr>r_end = Crash UseAfterFree, r_stdout = [0x08, 0x01], r_stderr = []\<rparr>"
  by (simp add: parallel_eval rotate_eval block_eval)

end
